theory Spec2Isabelle
  imports Main "HOL-Library.Log_Nat"
begin

section \<open>Mock API server (server/server.js)\<close>

text \<open>
  The server keeps one process-wide table \<open>mockLogs\<close> and answers three routes.
  The model passes the table explicitly. Everything a handler reads from outside the
  program is an argument of its model: the value of \<open>new Date().toISOString()\<close>
  (\<open>timestamp\<close>), the value of a \<open>Math.random()\<close> call (\<open>r\<close>), and the text of
  \<open>Math.random().toString(36).substring(2)\<close> in iteration \<open>i\<close> of the long-log loop
  (\<open>token i\<close>). Console output is not part of the model. Query parameters are strings,
  as the specification types them; an absent parameter (\<open>undefined\<close>) is \<open>None\<close>.

  \<open>String.prototype.toLowerCase\<close> belongs to the engine and not to the program. Every
  definition that folds case takes it as its first argument \<open>toLowerCase\<close>, and the theorems
  hold for every such function, so for the one of the engine with its full Unicode mapping.
\<close>

subsection \<open>Strings\<close>

text \<open>
  A string is a list of bytes, the UTF-8 encoding of its text. For the concrete requests of
  the examples below, \<open>toLowerCase_latin\<close> is the case folding of the engine on text made of
  Basic Latin characters and the Kelvin sign U+212A (bytes E2 84 AA), the one character
  outside Basic Latin whose lower case is a Basic Latin letter: A to Z become a to z, the
  Kelvin sign becomes k, every other Basic Latin character is kept.
\<close>

definition lower_basic_latin :: "char \<Rightarrow> char" where
  "lower_basic_latin c =
     (let n = (of_char c :: nat) in if 65 \<le> n \<and> n \<le> 90 then char_of (n + 32) else c)"

fun toLowerCase_latin :: "string \<Rightarrow> string" where
  "toLowerCase_latin (a # b # c # s) =
     (if a = CHR 0xE2 \<and> b = CHR 0x84 \<and> c = CHR 0xAA then CHR ''k'' # toLowerCase_latin s
      else lower_basic_latin a # toLowerCase_latin (b # c # s))"
| "toLowerCase_latin (a # s) = lower_basic_latin a # toLowerCase_latin s"
| "toLowerCase_latin [] = []"

text \<open>The decimal text of a number, as a template literal renders \<open>${i + 1}\<close>.\<close>

definition digit_char :: "nat \<Rightarrow> char" where
  "digit_char d = char_of (48 + d)"

fun decimal :: "nat \<Rightarrow> string" where
  "decimal n = (if n < 10 then [digit_char n] else decimal (n div 10) @ [digit_char (n mod 10)])"

declare decimal.simps [simp del]

text \<open>\<open>Array.prototype.join('\n')\<close>.\<close>

fun join_newline :: "string list \<Rightarrow> string" where
  "join_newline [] = []"
| "join_newline [x] = x"
| "join_newline (x # y # ys) = x @ ''\<newline>'' @ join_newline (y # ys)"

text \<open>
  JavaScript truthiness of a value that is \<open>undefined\<close> or a string: \<open>undefined\<close> and the
  empty string are falsy.
\<close>

definition truthy :: "string option \<Rightarrow> bool" where
  "truthy v = (case v of None \<Rightarrow> False | Some s \<Rightarrow> s \<noteq> [])"

text \<open>\<open>a || b\<close> where \<open>a\<close> is \<open>undefined\<close> or a string and \<open>b\<close> is a string.\<close>

definition logical_or :: "string option \<Rightarrow> string \<Rightarrow> string" where
  "logical_or a b = (case a of None \<Rightarrow> b | Some k \<Rightarrow> if k = [] then b else k)"

subsection \<open>Numbers\<close>

text \<open>
  A JavaScript number is an IEEE 754 binary64 value, and \<open>*\<close> and \<open>+\<close> round the exact
  result to the nearest such value, ties to the even significand. Finite values are
  modelled as rationals. \<open>expo x\<close> is the binary exponent of \<open>x\<close>
  (\<open>2 ^ expo x \<le> \<bar>x\<bar> < 2 ^ (expo x + 1)\<close>), \<open>rne\<close> rounds to 53 significant bits, with the
  subnormal spacing below \<open>2 ^ -1022\<close>. Overflow to infinity is not modelled: every
  number of this program is below 4096.
\<close>

definition round_half_even :: "rat \<Rightarrow> int" where
  "round_half_even y =
     (let f = \<lfloor>y\<rfloor>; d = y - of_int f
      in if d < 1 / 2 then f else if 1 / 2 < d then f + 1 else if even f then f else f + 1)"

definition expo :: "rat \<Rightarrow> int" where
  "expo x = (let (p, q) = quotient_of \<bar>x\<bar>; d = bitlen p - bitlen q
             in if 2 powi d \<le> \<bar>x\<bar> then d else d - 1)"

definition rne :: "rat \<Rightarrow> rat" where
  "rne x = (let e = max (expo x) (- 1022); q = 2 powi (e - 52)
            in q * of_int (round_half_even (x / q)))"

definition is_double :: "rat \<Rightarrow> bool" where
  "is_double x = (rne x = x)"

definition js_mul :: "rat \<Rightarrow> rat \<Rightarrow> rat" where
  "js_mul a b = rne (a * b)"

definition js_add :: "rat \<Rightarrow> rat \<Rightarrow> rat" where
  "js_add a b = rne (a + b)"

text \<open>The literal \<open>0.2\<close> denotes the binary64 value nearest to one fifth.\<close>

definition literal_0_2 :: rat where
  "literal_0_2 = rne (1 / 5)"

text \<open>\<^verbatim>\<open>const delay = Math.random() * 3000 + 1000;\<close> in \<open>/start_parser\<close>.\<close>

definition parser_delay :: "rat \<Rightarrow> rat" where
  "parser_delay r = js_add (js_mul r 3000) 1000"

text \<open>\<^verbatim>\<open>const delay = Math.random() * 1000 + 500;\<close> in \<open>/start_table_process\<close>.\<close>

definition table_delay :: "rat \<Rightarrow> rat" where
  "table_delay r = js_add (js_mul r 1000) 500"

subsection \<open>The log store\<close>

text \<open>
  \<open>mockLogs\<close> is an object whose own properties are listed by \<open>Object.keys\<close> in creation
  order: an association list from the key to its array of log lines.
\<close>

type_synonym log_store = "(string \<times> string list) list"

definition mockLogs_init :: log_store where
  "mockLogs_init =
     [(''Sale'', []), (''CurrencyInfo'', []), (''PackageIdPrice'', []),
      (''PackageIdSaleInfo'', []), (''BundleIdSaleInfo'', [])]"

definition object_keys :: "log_store \<Rightarrow> string list" where
  "object_keys mockLogs = map fst mockLogs"

text \<open>
  \<^verbatim>\<open>Object.keys(mockLogs).find(k => k.toLowerCase() === parserName.toLowerCase())\<close>:
  the first key that matches, \<open>undefined\<close> (here \<open>None\<close>) when none does.
\<close>

definition find_key :: "(string \<Rightarrow> string) \<Rightarrow> log_store \<Rightarrow> string \<Rightarrow> string option" where
  "find_key toLowerCase mockLogs parserName =
     List.find (\<lambda>k. toLowerCase k = toLowerCase parserName) (object_keys mockLogs)"

text \<open>\<open>push\<close> of one line, then \<open>shift\<close> when the array has more than 20 lines.\<close>

definition push_capped :: "string list \<Rightarrow> string \<Rightarrow> string list" where
  "push_capped logs line =
     (let pushed = logs @ [line] in if 20 < length pushed then tl pushed else pushed)"

definition log_line :: "string \<Rightarrow> string \<Rightarrow> string" where
  "log_line timestamp message = ''['' @ timestamp @ ''] '' @ message"

text \<open>
  \<open>addLog\<close> mutates the array stored under \<open>logKey\<close> in place; the model returns the
  table with that array replaced.
\<close>

definition addLog ::
  "(string \<Rightarrow> string) \<Rightarrow> log_store \<Rightarrow> string \<Rightarrow> string \<Rightarrow> string \<Rightarrow> log_store" where
  "addLog toLowerCase mockLogs parserName message timestamp =
     (let logKey = find_key toLowerCase mockLogs parserName in
      if truthy logKey then
        map (\<lambda>(k, logs).
               if Some k = logKey then (k, push_capped logs (log_line timestamp message))
               else (k, logs)) mockLogs
      else mockLogs)"

text \<open>A sequence of \<open>addLog\<close> calls, each with its name, message and timestamp.\<close>

fun addLogs ::
  "(string \<Rightarrow> string) \<Rightarrow> log_store \<Rightarrow> (string \<times> string \<times> string) list \<Rightarrow> log_store" where
  "addLogs toLowerCase mockLogs [] = mockLogs"
| "addLogs toLowerCase mockLogs ((parserName, message, timestamp) # calls) =
     addLogs toLowerCase (addLog toLowerCase mockLogs parserName message timestamp) calls"

text \<open>The capacity bound: no array of the table holds more than 20 lines.\<close>

definition within_capacity :: "log_store \<Rightarrow> bool" where
  "within_capacity mockLogs = (\<forall>(k, logs) \<in> set mockLogs. length logs \<le> 20)"

subsection \<open>Responses\<close>

datatype jval = JNum nat | JStr string

datatype response = Response (http_status: nat) (json_body: "(string \<times> jval) list")

datatype js_error = TypeError

text \<open>A timer set by \<open>setTimeout\<close>: its delay and the variables its callback closes over.\<close>

datatype timer =
    ParserTimer rat string string
  | TableTimer rat string

datatype handled = Replied response | Scheduled timer

subsection \<open>GET /start\_parser\<close>

definition missing_parser :: response where
  \<open>missing_parser =
     Response 400
       [(''status'', JNum 400), (''message'', JStr ''Query parameter "parser" is required'')]\<close>

text \<open>\<open>!parserName\<close> holds for \<open>undefined\<close> and for the empty string.\<close>

definition start_parser ::
  "(string \<Rightarrow> string) \<Rightarrow> log_store \<Rightarrow> string option \<Rightarrow> string \<Rightarrow> rat
     \<Rightarrow> handled \<times> log_store" where
  "start_parser toLowerCase mockLogs query_parser timestamp r =
     (case query_parser of
        None \<Rightarrow> (Replied missing_parser, mockLogs)
      | Some parserName \<Rightarrow>
          if parserName = [] then (Replied missing_parser, mockLogs)
          else
            (let logKey = find_key toLowerCase mockLogs parserName;
                 effectiveParserName = logical_or logKey parserName;
                 mockLogs' =
                   addLog toLowerCase mockLogs effectiveParserName ''Parser start requested.''
                     timestamp;
                 delay = parser_delay r
             in (Scheduled (ParserTimer delay parserName effectiveParserName), mockLogs')))"

text \<open>The callback of the timer; \<open>r\<close> is the value of its \<open>Math.random()\<close> call.\<close>

definition parser_callback ::
  "(string \<Rightarrow> string) \<Rightarrow> log_store \<Rightarrow> string \<Rightarrow> string \<Rightarrow> string \<Rightarrow> rat
     \<Rightarrow> response \<times> log_store" where
  "parser_callback toLowerCase mockLogs parserName effectiveParserName timestamp r =
     (let shouldFail = (effectiveParserName = ''CurrencyInfo'' \<and> r < literal_0_2) in
      if shouldFail then
        (Response 500
           [(''status'', JNum 500),
            (''message'', JStr (''Mock error during '' @ parserName @ '' parsing'')),
            (''parser'', JStr parserName)],
         addLog toLowerCase mockLogs effectiveParserName ''Parser execution FAILED.'' timestamp)
      else
        (Response 200
           [(''status'', JNum 200),
            (''message'',
               JStr (''Parser '' @ parserName @ '' started and finished successfully (mock).'')),
            (''parser'', JStr parserName)],
         addLog toLowerCase mockLogs effectiveParserName
           ''Parser execution finished successfully.'' timestamp))"

subsection \<open>GET /start\_table\_process\<close>

text \<open>The text of \<open>${args}\<close>.\<close>

definition args_text :: "string option \<Rightarrow> string" where
  "args_text args = (case args of None \<Rightarrow> ''undefined'' | Some a \<Rightarrow> a)"

text \<open>The warning written when \<open>set_shop_price\<close> comes without \<open>args=["main"]\<close>.\<close>

definition args_warning :: "string \<Rightarrow> string option \<Rightarrow> string option" where
  \<open>args_warning methodName args =
     (if methodName = ''set_shop_price'' \<and> args \<noteq> Some ''["main"]'' then
        Some (''Warning: Expected args='' @ [CHR 0x27] @ ''["main"]'' @ [CHR 0x27]
              @ '' for set_shop_price, but received: '' @ args_text args)
      else None)\<close>

definition missing_method :: response where
  \<open>missing_method =
     Response 400
       [(''status'', JNum 400), (''message'', JStr ''Query parameter "method" is required'')]\<close>

text \<open>The handler returns what it did with the request and the warning it wrote, if any.\<close>

definition start_table_process ::
  "string option \<Rightarrow> string option \<Rightarrow> rat \<Rightarrow> handled \<times> string option" where
  "start_table_process query_method args r =
     (case query_method of
        None \<Rightarrow> (Replied missing_method, None)
      | Some methodName \<Rightarrow>
          if methodName = [] then (Replied missing_method, None)
          else (Scheduled (TableTimer (table_delay r) methodName), args_warning methodName args))"

definition table_callback :: "string \<Rightarrow> response" where
  "table_callback methodName =
     Response 200
       [(''status'', JNum 200),
        (''message'', JStr (''Table process '' @ methodName @ '' finished successfully (mock).'')),
        (''method'', JStr methodName)]"

subsection \<open>GET /get\_logs/parser=...\<close>

definition long_log_line :: "(nat \<Rightarrow> string) \<Rightarrow> nat \<Rightarrow> string" where
  "long_log_line token i =
     ''This is a very long log line number '' @ decimal (i + 1)
     @ '' to test the file sending feature. Count: '' @ token i @ ''.\<newline>''"

text \<open>\<^verbatim>\<open>for (let i = 0; i < 500; i++) { logsToSend += ...; }\<close>\<close>

function long_log_loop :: "(nat \<Rightarrow> string) \<Rightarrow> nat \<Rightarrow> string \<Rightarrow> string" where
  "long_log_loop token i logsToSend =
     (if i < 500 then long_log_loop token (i + 1) (logsToSend @ long_log_line token i)
      else logsToSend)"
  by pat_completeness auto
termination
  by (relation "measure (\<lambda>(token, i, logsToSend). 500 - i)") auto

declare long_log_loop.simps [simp del]

text \<open>
  \<open>mockLogs[logKey]\<close> is \<open>undefined\<close> when the table has no such property, and reading
  \<open>.length\<close> of it throws.
\<close>

definition get_logs ::
  "(string \<Rightarrow> string) \<Rightarrow> log_store \<Rightarrow> string \<Rightarrow> string \<Rightarrow> (nat \<Rightarrow> string)
     \<Rightarrow> js_error + response" where
  "get_logs toLowerCase mockLogs parserName timestamp token =
     (case find_key toLowerCase mockLogs parserName of
        None \<Rightarrow>
          Inr (Response 404
            [(''status'', JNum 404),
             (''message'', JStr (''No logs found for unknown parser: '' @ parserName))])
      | Some logKey \<Rightarrow>
          if logKey = [] then
            Inr (Response 404
              [(''status'', JNum 404),
               (''message'', JStr (''No logs found for unknown parser: '' @ parserName))])
          else
            (case map_of mockLogs logKey of
               None \<Rightarrow> Inl TypeError
             | Some logs \<Rightarrow>
                (let logsToSend =
                       (if 0 < length logs then join_newline logs
                        else ''['' @ timestamp @ ''] No logs recorded yet for '' @ logKey @ ''.'');
                     logsToSend' =
                       (if logKey = ''Sale'' \<and> 0 < length logs then
                          long_log_loop token 0 (logsToSend @ ''\<newline>----- START LONG LOG -----\<newline>'')
                          @ ''----- END LONG LOG -----''
                        else logsToSend)
                 in Inr (Response 200 [(''status'', JNum 200), (''message'', JStr logsToSend')]))))"

subsection \<open>The server as a transition system\<close>

text \<open>
  The state of the process: the table and the timers that have not fired yet. An event
  is a request reaching one of the routes, or a pending timer firing. The model lets the
  pending timers fire in any order, which covers the order their delays give.
\<close>

record server =
  srv_logs :: log_store
  srv_timers :: "timer list"

datatype event =
    StartParser "string option" string rat
  | StartTableProcess "string option" "string option" rat
  | GetLogs string string "nat \<Rightarrow> string"
  | OtherRoute
  | TimerFires nat string rat

definition server_init :: server where
  "server_init = \<lparr>srv_logs = mockLogs_init, srv_timers = []\<rparr>"

definition not_found :: response where
  "not_found = Response 404 [(''status'', JNum 404), (''message'', JStr ''Endpoint not found'')]"

fun fire ::
  "(string \<Rightarrow> string) \<Rightarrow> log_store \<Rightarrow> timer \<Rightarrow> string \<Rightarrow> rat \<Rightarrow> response \<times> log_store" where
  "fire toLowerCase mockLogs (ParserTimer delay parserName effectiveParserName) timestamp r =
     parser_callback toLowerCase mockLogs parserName effectiveParserName timestamp r"
| "fire toLowerCase mockLogs (TableTimer delay methodName) timestamp r =
     (table_callback methodName, mockLogs)"

fun step ::
  "(string \<Rightarrow> string) \<Rightarrow> server \<Rightarrow> event \<Rightarrow> server \<times> (js_error + response) option" where
  "step toLowerCase s (StartParser query_parser timestamp r) =
     (case start_parser toLowerCase (srv_logs s) query_parser timestamp r of
        (Replied resp, mockLogs') \<Rightarrow> (s\<lparr>srv_logs := mockLogs'\<rparr>, Some (Inr resp))
      | (Scheduled t, mockLogs') \<Rightarrow> (s\<lparr>srv_logs := mockLogs', srv_timers := srv_timers s @ [t]\<rparr>, None))"
| "step toLowerCase s (StartTableProcess query_method args r) =
     (case fst (start_table_process query_method args r) of
        Replied resp \<Rightarrow> (s, Some (Inr resp))
      | Scheduled t \<Rightarrow> (s\<lparr>srv_timers := srv_timers s @ [t]\<rparr>, None))"
| "step toLowerCase s (GetLogs parserName timestamp token) =
     (s, Some (get_logs toLowerCase (srv_logs s) parserName timestamp token))"
| "step toLowerCase s OtherRoute = (s, Some (Inr not_found))"
| "step toLowerCase s (TimerFires n timestamp r) =
     (if n < length (srv_timers s) then
        (case fire toLowerCase (srv_logs s) (srv_timers s ! n) timestamp r of
           (resp, mockLogs') \<Rightarrow>
             (\<lparr>srv_logs = mockLogs', srv_timers = take n (srv_timers s) @ drop (Suc n) (srv_timers s)\<rparr>,
              Some (Inr resp)))
      else (s, None))"

fun run :: "(string \<Rightarrow> string) \<Rightarrow> server \<Rightarrow> event list \<Rightarrow> server" where
  "run toLowerCase s [] = s"
| "run toLowerCase s (e # es) = run toLowerCase (fst (step toLowerCase s e)) es"

section \<open>Properties\<close>

subsection \<open>Rounding to binary64\<close>

lemma round_half_even_cases:
  "round_half_even y = \<lfloor>y\<rfloor> \<or> round_half_even y = \<lfloor>y\<rfloor> + 1"
  by (simp add: round_half_even_def Let_def)

lemma round_half_even_of_int: "round_half_even (of_int n) = n"
  by (simp add: round_half_even_def)

lemma round_half_even_ge: "of_int m \<le> y \<Longrightarrow> m \<le> round_half_even y"
proof -
  assume "of_int m \<le> y"
  then have "m \<le> \<lfloor>y\<rfloor>" by (simp add: le_floor_iff)
  then show ?thesis using round_half_even_cases [of y] by linarith
qed

lemma round_half_even_le: "y \<le> of_int m \<Longrightarrow> round_half_even y \<le> m"
proof (cases "y = of_int m")
  case True
  then show ?thesis by (simp add: round_half_even_of_int)
next
  case False
  assume "y \<le> of_int m"
  with False have "y < of_int m" by simp
  then have "\<lfloor>y\<rfloor> < m" by (simp add: floor_less_iff)
  then show ?thesis using round_half_even_cases [of y] by linarith
qed

lemma round_half_even_below_half: "y < of_int m - 1 / 2 \<Longrightarrow> round_half_even y \<le> m - 1"
proof -
  assume a: "y < of_int m - 1 / 2"
  then have "y < of_int m" by simp
  then have fl: "\<lfloor>y\<rfloor> < m" by (simp add: floor_less_iff)
  show ?thesis
  proof (cases "\<lfloor>y\<rfloor> = m - 1")
    case True
    then have "y - of_int \<lfloor>y\<rfloor> < 1 / 2" using a by simp
    then have "round_half_even y = \<lfloor>y\<rfloor>" by (simp add: round_half_even_def Let_def)
    then show ?thesis using True by simp
  next
    case False
    with fl have "\<lfloor>y\<rfloor> + 1 \<le> m - 1" by linarith
    then show ?thesis using round_half_even_cases [of y] by linarith
  qed
qed

lemma two_powi_pos: "0 < (2::rat) powi k"
  by simp

lemma two_powi_le_iff: "(2::rat) powi m \<le> 2 powi n \<longleftrightarrow> m \<le> n"
proof
  assume a: "(2::rat) powi m \<le> 2 powi n"
  show "m \<le> n"
  proof (rule ccontr)
    assume "\<not> m \<le> n"
    then have "n < m" by simp
    then have "(2::rat) powi n < 2 powi m" by (intro power_int_strict_increasing) simp_all
    with a show False by simp
  qed
next
  assume "m \<le> n"
  then show "(2::rat) powi m \<le> 2 powi n" by (intro power_int_increasing) simp_all
qed

lemma two_powi_less_iff: "(2::rat) powi m < 2 powi n \<longleftrightarrow> m < n"
  using two_powi_le_iff [of n m] by (simp add: not_le [symmetric])

lemma expo_bounds:
  assumes "x \<noteq> 0"
  shows "2 powi (expo x) \<le> \<bar>x\<bar> \<and> \<bar>x\<bar> < 2 powi (expo x + 1)"
proof -
  obtain p q where pq: "quotient_of \<bar>x\<bar> = (p, q)" by (cases "quotient_of \<bar>x\<bar>")
  have q: "0 < q" using pq by (rule quotient_of_denom_pos)
  have x: "\<bar>x\<bar> = of_int p / of_int q" using pq by (rule quotient_of_div)
  have "0 < \<bar>x\<bar>" using assms by simp
  then have p: "0 < p" using x q by (simp add: zero_less_divide_iff)
  define bp where "bp = bitlen p"
  define bq where "bq = bitlen q"
  have bp: "2 ^ nat (bp - 1) \<le> p" "p < 2 ^ nat bp"
    using bitlen_bounds [OF p] by (simp_all add: bp_def)
  have bq: "2 ^ nat (bq - 1) \<le> q" "q < 2 ^ nat bq"
    using bitlen_bounds [OF q] by (simp_all add: bq_def)
  have bp1: "1 \<le> bp" using p by (simp add: bp_def bitlen_alt_def)
  have bq1: "1 \<le> bq" using q by (simp add: bq_def bitlen_alt_def)
  have P1: "(2::rat) powi (bp - 1) \<le> of_int p"
  proof -
    have "(of_int (2 ^ nat (bp - 1)) :: rat) \<le> of_int p" using bp(1) by (simp only: of_int_le_iff)
    then show ?thesis using bp1 by (simp add: power_int_def)
  qed
  have P2: "(of_int p :: rat) < 2 powi bp"
  proof -
    have "(of_int p :: rat) < of_int (2 ^ nat bp)" using bp(2) by (simp only: of_int_less_iff)
    then show ?thesis using bp1 by (simp add: power_int_def)
  qed
  have Q1: "(2::rat) powi (bq - 1) \<le> of_int q"
  proof -
    have "(of_int (2 ^ nat (bq - 1)) :: rat) \<le> of_int q" using bq(1) by (simp only: of_int_le_iff)
    then show ?thesis using bq1 by (simp add: power_int_def)
  qed
  have Q2: "(of_int q :: rat) < 2 powi bq"
  proof -
    have "(of_int q :: rat) < of_int (2 ^ nat bq)" using bq(2) by (simp only: of_int_less_iff)
    then show ?thesis using bq1 by (simp add: power_int_def)
  qed
  have qpos: "(0::rat) < of_int q" using q by simp
  have ppos: "(0::rat) < of_int p" using p by simp
  have lo: "(2::rat) powi (bp - bq - 1) \<le> \<bar>x\<bar>"
  proof -
    have "(2::rat) powi (bp - bq - 1) = 2 powi (bp - 1) / 2 powi bq"
      using power_int_diff [of "2::rat" "bp - 1" bq] by (simp add: algebra_simps)
    also have "\<dots> \<le> of_int p / 2 powi bq"
      using P1 by (simp add: divide_right_mono)
    also have "\<dots> \<le> of_int p / of_int q"
      using Q2 qpos ppos by (intro divide_left_mono) (simp_all add: less_imp_le)
    finally show ?thesis by (simp add: x)
  qed
  have hi: "\<bar>x\<bar> < (2::rat) powi (bp - bq + 1)"
  proof -
    have "of_int p / of_int q < (2::rat) powi bp / of_int q"
      using P2 qpos by (simp add: divide_strict_right_mono)
    also have "\<dots> \<le> 2 powi bp / 2 powi (bq - 1)"
      using Q1 qpos by (intro divide_left_mono) (simp_all add: zero_less_mult_iff)
    also have "\<dots> = 2 powi (bp - bq + 1)"
      using power_int_diff [of "2::rat" bp "bq - 1"] by (simp add: algebra_simps)
    finally show ?thesis by (simp add: x)
  qed
  show ?thesis
  proof (cases "2 powi (bp - bq) \<le> \<bar>x\<bar>")
    case True
    then have "expo x = bp - bq" by (simp add: expo_def pq bp_def bq_def Let_def)
    with True hi show ?thesis by simp
  next
    case False
    then have "expo x = bp - bq - 1" by (simp add: expo_def pq bp_def bq_def Let_def)
    with False lo show ?thesis by simp
  qed
qed

lemma expo_unique:
  assumes "2 powi k \<le> \<bar>x\<bar>" and "\<bar>x\<bar> < 2 powi (k + 1)"
  shows "expo x = k"
proof -
  have "0 < \<bar>x\<bar>" using assms(1) two_powi_pos [of k] by linarith
  then have "x \<noteq> 0" by auto
  from expo_bounds [OF this] have b: "2 powi (expo x) \<le> \<bar>x\<bar>" "\<bar>x\<bar> < 2 powi (expo x + 1)"
    by simp_all
  have "(2::rat) powi k < 2 powi (expo x + 1)" using assms(1) b(2) by simp
  then have 1: "k < expo x + 1" by (simp add: two_powi_less_iff)
  have "(2::rat) powi (expo x) < 2 powi (k + 1)" using assms(2) b(1) by simp
  then have 2: "expo x < k + 1" by (simp add: two_powi_less_iff)
  from 1 2 show ?thesis by simp
qed

lemma rne_in_binade:
  assumes "2 powi k \<le> \<bar>x\<bar>" and "\<bar>x\<bar> < 2 powi (k + 1)" and "- 1022 \<le> k"
  shows "rne x = 2 powi (k - 52) * of_int (round_half_even (x / 2 powi (k - 52)))"
  using expo_unique [OF assms(1,2)] assms(3) by (simp add: rne_def Let_def max_def)

lemma rne_zero: "rne 0 = 0"
  by code_simp

lemma rne_nonneg: "0 \<le> x \<Longrightarrow> 0 \<le> rne x"
proof -
  assume "0 \<le> x"
  then have "of_int 0 \<le> x / 2 powi (max (expo x) (- 1022) - 52)" by simp
  then have "0 \<le> round_half_even (x / 2 powi (max (expo x) (- 1022) - 52))"
    by (rule round_half_even_ge)
  then show ?thesis by (simp add: rne_def Let_def)
qed

text \<open>Rounding never crosses a power of two.\<close>

lemma rne_le_pow:
  assumes "0 < x" and "x \<le> 2 powi n" and "- 1022 \<le> n"
  shows "rne x \<le> 2 powi n"
proof -
  define e where "e = max (expo x) (- 1022)"
  have "x \<noteq> 0" using assms(1) by simp
  from expo_bounds [OF this] assms(1) have "2 powi (expo x) \<le> x" by simp
  with assms(2) have "(2::rat) powi (expo x) \<le> 2 powi n" by simp
  then have "expo x \<le> n" by (simp add: two_powi_le_iff)
  with assms(3) have en: "e \<le> n" by (simp add: e_def)
  define m :: int where "m = 2 ^ nat (n - e + 52)"
  have pw: "(2::rat) powi n = 2 powi (e - 52) * of_int m"
  proof -
    have "(2::rat) powi n = 2 powi ((e - 52) + (n - e + 52))" by simp
    also have "\<dots> = 2 powi (e - 52) * 2 powi (n - e + 52)"
      by (rule power_int_add) simp
    also have "(2::rat) powi (n - e + 52) = of_int m"
      using en by (simp add: m_def power_int_def)
    finally show ?thesis .
  qed
  have "x / 2 powi (e - 52) \<le> of_int m"
    using assms(2) by (simp add: pw pos_divide_le_eq mult.commute)
  then have "round_half_even (x / 2 powi (e - 52)) \<le> m" by (rule round_half_even_le)
  then have "2 powi (e - 52) * of_int (round_half_even (x / 2 powi (e - 52)))
               \<le> 2 powi (e - 52) * (of_int m :: rat)"
    by (intro mult_left_mono) simp_all
  then show ?thesis by (simp add: rne_def Let_def e_def [symmetric] pw)
qed

lemma rne_ge_pow:
  assumes "2 powi n \<le> x" and "- 1022 \<le> n"
  shows "2 powi n \<le> rne x"
proof -
  have xpos: "0 < x" using assms(1) two_powi_pos [of n] by linarith
  then have "x \<noteq> 0" by simp
  from expo_bounds [OF this] xpos have b: "2 powi (expo x) \<le> x" "x < 2 powi (expo x + 1)"
    by simp_all
  have "(2::rat) powi n < 2 powi (expo x + 1)" using assms(1) b(2) by simp
  then have ne: "n \<le> expo x" by (simp add: two_powi_less_iff)
  define e where "e = expo x"
  have e: "- 1022 \<le> e" "n \<le> e" using ne assms(2) by (simp_all add: e_def)
  define m :: int where "m = 2 ^ 52"
  have pw: "(2::rat) powi e = 2 powi (e - 52) * of_int m"
  proof -
    have "(2::rat) powi e = 2 powi ((e - 52) + 52)" by simp
    also have "\<dots> = 2 powi (e - 52) * 2 powi 52"
      by (rule power_int_add) simp
    finally show ?thesis by (simp add: m_def)
  qed
  have "of_int m \<le> x / 2 powi (e - 52)"
    using b(1) by (simp add: e_def [symmetric] pw pos_le_divide_eq mult.commute)
  then have "m \<le> round_half_even (x / 2 powi (e - 52))" by (rule round_half_even_ge)
  then have "2 powi (e - 52) * (of_int m :: rat)
               \<le> 2 powi (e - 52) * of_int (round_half_even (x / 2 powi (e - 52)))"
    by (intro mult_left_mono) simp_all
  then have "2 powi e \<le> rne x"
    using e(1) by (simp add: rne_def Let_def e_def [symmetric] pw max_def)
  moreover have "(2::rat) powi n \<le> 2 powi e" using e(2) by (simp add: two_powi_le_iff)
  ultimately show ?thesis by simp
qed


text \<open>Within one binade, rounding is monotone against the points of its grid.\<close>

lemma rne_grid_le:
  assumes "2 powi k \<le> x" and "x < 2 powi (k + 1)" and "- 1022 \<le> k"
    and "x \<le> 2 powi (k - 52) * of_int m"
  shows "rne x \<le> 2 powi (k - 52) * of_int m"
proof -
  have xpos: "0 < x" using assms(1) two_powi_pos [of k] by linarith
  then have r: "rne x = 2 powi (k - 52) * of_int (round_half_even (x / 2 powi (k - 52)))"
    using rne_in_binade [of k x] assms(1,2,3) by simp
  have "x / 2 powi (k - 52) \<le> of_int m"
    using assms(4) by (simp add: pos_divide_le_eq mult.commute)
  then have "round_half_even (x / 2 powi (k - 52)) \<le> m" by (rule round_half_even_le)
  then have "2 powi (k - 52) * of_int (round_half_even (x / 2 powi (k - 52)))
               \<le> 2 powi (k - 52) * (of_int m :: rat)"
    by (intro mult_left_mono) simp_all
  then show ?thesis by (simp add: r)
qed

lemma rne_grid_ge:
  assumes "2 powi k \<le> x" and "x < 2 powi (k + 1)" and "- 1022 \<le> k"
    and "2 powi (k - 52) * of_int m \<le> x"
  shows "2 powi (k - 52) * of_int m \<le> rne x"
proof -
  have xpos: "0 < x" using assms(1) two_powi_pos [of k] by linarith
  then have r: "rne x = 2 powi (k - 52) * of_int (round_half_even (x / 2 powi (k - 52)))"
    using rne_in_binade [of k x] assms(1,2,3) by simp
  have "of_int m \<le> x / 2 powi (k - 52)"
    using assms(4) by (simp add: pos_le_divide_eq mult.commute)
  then have "m \<le> round_half_even (x / 2 powi (k - 52))" by (rule round_half_even_ge)
  then have "2 powi (k - 52) * (of_int m :: rat)
               \<le> 2 powi (k - 52) * of_int (round_half_even (x / 2 powi (k - 52)))"
    by (intro mult_left_mono) simp_all
  then show ?thesis by (simp add: r)
qed

lemma rne_grid_below_half:
  assumes "2 powi k \<le> x" and "x < 2 powi (k + 1)" and "- 1022 \<le> k"
    and "x < 2 powi (k - 52) * (of_int m - 1 / 2)"
  shows "rne x \<le> 2 powi (k - 52) * of_int (m - 1)"
proof -
  have xpos: "0 < x" using assms(1) two_powi_pos [of k] by linarith
  then have r: "rne x = 2 powi (k - 52) * of_int (round_half_even (x / 2 powi (k - 52)))"
    using rne_in_binade [of k x] assms(1,2,3) by simp
  have "x / 2 powi (k - 52) < of_int m - 1 / 2"
    using assms(4) by (simp add: pos_divide_less_eq mult.commute)
  then have "round_half_even (x / 2 powi (k - 52)) \<le> m - 1"
    by (rule round_half_even_below_half)
  then have "2 powi (k - 52) * of_int (round_half_even (x / 2 powi (k - 52)))
               \<le> 2 powi (k - 52) * (of_int (m - 1) :: rat)"
    by (intro mult_left_mono) (simp_all only: of_int_le_iff zero_le_power_int zero_le_numeral)
  then show ?thesis by (simp only: r)
qed

text \<open>A value that rounding leaves alone lies on the grid of its binade.\<close>

lemma double_grid:
  assumes "is_double x" and "2 powi k \<le> x" and "x < 2 powi (k + 1)" and "- 1022 \<le> k"
  shows "\<exists>n. x = 2 powi (k - 52) * of_int n"
proof -
  have xpos: "0 < x" using assms(2) two_powi_pos [of k] by linarith
  then have "rne x = 2 powi (k - 52) * of_int (round_half_even (x / 2 powi (k - 52)))"
    using rne_in_binade [of k x] assms(2,3,4) by simp
  with assms(1) show ?thesis unfolding is_double_def by metis
qed

lemma double_below_one:
  assumes "is_double r" and "r < 1"
  shows "r \<le> 1 - 1 / 2 ^ 53"
proof (cases "r < 1 / 2")
  case True
  then show ?thesis by simp
next
  case False
  then have "2 powi (- 1) \<le> r" "r < 2 powi (- 1 + 1)" using assms(2) by simp_all
  from double_grid [OF assms(1) this] obtain n where n: "r = 2 powi (- 1 - 52) * of_int n"
    by auto
  then have rn: "r = of_int n / 2 ^ 53" by (simp add: power_int_minus_divide)
  with assms(2) have "(of_int n :: rat) < of_int (2 ^ 53)" by (simp add: pos_divide_less_eq)
  then have "n < 2 ^ 53" by (simp only: of_int_less_iff)
  then have "n \<le> 2 ^ 53 - 1" by simp
  then have "(of_int n :: rat) \<le> of_int (2 ^ 53 - 1)" by (simp only: of_int_le_iff)
  then show ?thesis by (simp add: rn pos_divide_le_eq)
qed


subsection \<open>The two delays\<close>

lemma mul_3000_upper:
  assumes "0 \<le> r" and "r \<le> 1 - 1 / 2 ^ 53"
  shows "rne (r * 3000) \<le> 3000 - 1 / 2 ^ 41"
proof -
  consider "r * 3000 = 0" | "0 < r * 3000" "r * 3000 \<le> 2048" | "2048 < r * 3000"
    using assms(1) by fastforce
  then show ?thesis
  proof cases
    case 1
    then show ?thesis by (simp add: rne_zero)
  next
    case 2
    then have "rne (r * 3000) \<le> 2 powi 11" by (intro rne_le_pow) simp_all
    then show ?thesis by simp
  next
    case 3
    have "r * 3000 < 4096" using assms(2) by simp
    then have b: "2 powi 11 \<le> r * 3000" "r * 3000 < 2 powi (11 + 1)" using 3 by simp_all
    have "r * 3000 \<le> 3000 - 3000 / 2 ^ 53" using assms(2) by simp
    then have "r * 3000 < 2 powi (11 - 52) * (of_int (3000 * 2 ^ 41) - 1 / 2)"
      by (simp add: power_int_minus_divide)
    from rne_grid_below_half [OF b _ this]
    have "rne (r * 3000) \<le> 2 powi (11 - 52) * of_int (3000 * 2 ^ 41 - 1)" by simp
    then show ?thesis by (simp add: power_int_minus_divide)
  qed
qed

lemma mul_1000_upper:
  assumes "0 \<le> r" and "r \<le> 1 - 1 / 2 ^ 53"
  shows "rne (r * 1000) \<le> 1000 - 1 / 2 ^ 43"
proof -
  consider "r * 1000 = 0" | "0 < r * 1000" "r * 1000 \<le> 512" | "512 < r * 1000"
    using assms(1) by fastforce
  then show ?thesis
  proof cases
    case 1
    then show ?thesis by (simp add: rne_zero)
  next
    case 2
    then have "rne (r * 1000) \<le> 2 powi 9" by (intro rne_le_pow) simp_all
    then show ?thesis by simp
  next
    case 3
    have "r * 1000 < 1024" using assms(2) by simp
    then have b: "2 powi 9 \<le> r * 1000" "r * 1000 < 2 powi (9 + 1)" using 3 by simp_all
    have "r * 1000 \<le> 1000 - 1000 / 2 ^ 53" using assms(2) by simp
    then have "r * 1000 < 2 powi (9 - 52) * (of_int (1000 * 2 ^ 43) - 1 / 2)"
      by (simp add: power_int_minus_divide)
    from rne_grid_below_half [OF b _ this]
    have "rne (r * 1000) \<le> 2 powi (9 - 52) * of_int (1000 * 2 ^ 43 - 1)" by simp
    then show ?thesis by (simp add: power_int_minus_divide)
  qed
qed

lemma add_1000_bounds:
  assumes "0 \<le> y" and "y \<le> 3000 - 1 / 2 ^ 41"
  shows "1000 \<le> rne (y + 1000) \<and> rne (y + 1000) < 4000"
proof -
  define z where "z = y + 1000"
  have z: "1000 \<le> z" "z \<le> 4000 - 1 / 2 ^ 41" using assms by (simp_all add: z_def)
  have lower: "1000 \<le> rne z"
  proof (cases "z < 1024")
    case True
    then have b: "2 powi 9 \<le> z" "z < 2 powi (9 + 1)" using z(1) by simp_all
    have "2 powi (9 - 52) * of_int (1000 * 2 ^ 43) \<le> z"
      using z(1) by (simp add: power_int_minus_divide)
    from rne_grid_ge [OF b _ this] show ?thesis by (simp add: power_int_minus_divide)
  next
    case False
    then have "2 powi 10 \<le> z" by simp
    then have "2 powi 10 \<le> rne z" by (rule rne_ge_pow) simp
    then show ?thesis by simp
  qed
  have upper: "rne z < 4000"
  proof (cases "z \<le> 2048")
    case True
    have "0 < z" using z(1) by simp
    then have "rne z \<le> 2 powi 11" using True by (intro rne_le_pow) simp_all
    then show ?thesis by simp
  next
    case False
    have "z < 4096" using z(2) by simp
    then have b: "2 powi 11 \<le> z" "z < 2 powi (11 + 1)" using False by simp_all
    have "z \<le> 2 powi (11 - 52) * of_int (4000 * 2 ^ 41 - 1)"
      using z(2) by (simp add: power_int_minus_divide)
    from rne_grid_le [OF b _ this] have "rne z \<le> 4000 - 1 / 2 ^ 41"
      by (simp add: power_int_minus_divide)
    then show ?thesis by simp
  qed
  from lower upper show ?thesis by (simp add: z_def)
qed

lemma add_500_bounds:
  assumes "0 \<le> y" and "y \<le> 1000 - 1 / 2 ^ 43"
  shows "500 \<le> rne (y + 500) \<and> rne (y + 500) \<le> 1500"
proof -
  define z where "z = y + 500"
  have z: "500 \<le> z" "z \<le> 1500 - 1 / 2 ^ 43" using assms by (simp_all add: z_def)
  have lower: "500 \<le> rne z"
  proof (cases "z < 512")
    case True
    then have b: "2 powi 8 \<le> z" "z < 2 powi (8 + 1)" using z(1) by simp_all
    have "2 powi (8 - 52) * of_int (500 * 2 ^ 44) \<le> z"
      using z(1) by (simp add: power_int_minus_divide)
    from rne_grid_ge [OF b _ this] show ?thesis by (simp add: power_int_minus_divide)
  next
    case False
    then have "2 powi 9 \<le> z" by simp
    then have "2 powi 9 \<le> rne z" by (rule rne_ge_pow) simp
    then show ?thesis by simp
  qed
  have upper: "rne z \<le> 1500"
  proof (cases "z \<le> 1024")
    case True
    have "0 < z" using z(1) by simp
    then have "rne z \<le> 2 powi 10" using True by (intro rne_le_pow) simp_all
    then show ?thesis by simp
  next
    case False
    have "z < 2048" using z(2) by simp
    then have b: "2 powi 10 \<le> z" "z < 2 powi (10 + 1)" using False by simp_all
    have "z \<le> 2 powi (10 - 52) * of_int (1500 * 2 ^ 42)"
      using z(2) by (simp add: power_int_minus_divide)
    from rne_grid_le [OF b _ this] show ?thesis
      by (simp add: power_int_minus_divide)
  qed
  from lower upper show ?thesis by (simp add: z_def)
qed

lemma parser_delay_range:
  assumes "is_double r" and "0 \<le> r" and "r < 1"
  shows "1000 \<le> parser_delay r \<and> parser_delay r < 4000"
proof -
  have r: "r \<le> 1 - 1 / 2 ^ 53" using assms(1,3) by (rule double_below_one)
  have "0 \<le> rne (r * 3000)" using assms(2) by (intro rne_nonneg) simp
  moreover have "rne (r * 3000) \<le> 3000 - 1 / 2 ^ 41" using assms(2) r by (rule mul_3000_upper)
  ultimately show ?thesis
    unfolding parser_delay_def js_add_def js_mul_def by (rule add_1000_bounds)
qed

lemma table_delay_range:
  assumes "is_double r" and "0 \<le> r" and "r < 1"
  shows "500 \<le> table_delay r \<and> table_delay r \<le> 1500"
proof -
  have r: "r \<le> 1 - 1 / 2 ^ 53" using assms(1,3) by (rule double_below_one)
  have "0 \<le> rne (r * 1000)" using assms(2) by (intro rne_nonneg) simp
  moreover have "rne (r * 1000) \<le> 1000 - 1 / 2 ^ 43" using assms(2) r by (rule mul_1000_upper)
  ultimately show ?thesis
    unfolding table_delay_def js_add_def js_mul_def by (rule add_500_bounds)
qed

subsection \<open>The literal 0.2\<close>

lemma literal_0_2_value: "literal_0_2 = 3602879701896397 / 2 ^ 54"
  unfolding literal_0_2_def by code_simp

lemma below_literal_0_2:
  assumes "is_double r"
  shows "r < literal_0_2 \<longleftrightarrow> r < 1 / 5"
proof
  assume "r < 1 / 5"
  then show "r < literal_0_2" by (simp add: literal_0_2_value)
next
  assume a: "r < literal_0_2"
  show "r < 1 / 5"
  proof (cases "r < 1 / 8")
    case True
    then show ?thesis by simp
  next
    case False
    then have "2 powi (- 3) \<le> r" "r < 2 powi (- 3 + 1)"
      using a by (simp_all add: literal_0_2_value)
    from double_grid [OF assms this] obtain n where n: "r = 2 powi (- 3 - 52) * of_int n"
      by auto
    then have rn: "r = of_int n / 2 ^ 55" by (simp add: power_int_minus_divide)
    with a have "(of_int n :: rat) < of_int 7205759403792794"
      by (simp add: literal_0_2_value pos_divide_less_eq)
    then have "n < 7205759403792794" by (simp only: of_int_less_iff)
    then have "n \<le> 7205759403792793" by simp
    then have "(of_int n :: rat) \<le> of_int 7205759403792793" by (simp only: of_int_le_iff)
    then show ?thesis by (simp add: rn pos_divide_less_eq)
  qed
qed

subsection \<open>Key lookup and the table\<close>

lemma find_key_mem:
  "find_key toLowerCase mockLogs parserName = Some k \<Longrightarrow> k \<in> set (object_keys mockLogs)"
  by (auto simp: find_key_def find_Some_iff)

lemma find_key_idem:
  "find_key toLowerCase mockLogs parserName = Some k \<Longrightarrow> find_key toLowerCase mockLogs k = Some k"
  by (auto simp: find_key_def find_Some_iff)

lemma find_key_cong:
  "object_keys a = object_keys b \<Longrightarrow> find_key toLowerCase a n = find_key toLowerCase b n"
  by (simp add: find_key_def)

lemma map_of_keys:
  "k \<in> set (object_keys mockLogs) \<Longrightarrow> \<exists>logs. map_of mockLogs k = Some logs"
  by (induction mockLogs) (auto simp: object_keys_def)

lemma map_of_map_entries:
  "map_of (map (\<lambda>(k, v). if P k then (k, f v) else (k, v)) xs) k =
     (if P k then map_option f (map_of xs k) else map_of xs k)"
  by (induction xs) auto

subsection \<open>addLog\<close>

lemma object_keys_addLog:
  "object_keys (addLog toLowerCase mockLogs parserName message timestamp) = object_keys mockLogs"
  by (induction mockLogs) (auto simp: addLog_def object_keys_def Let_def split: prod.splits)

lemma map_of_addLog:
  "map_of (addLog toLowerCase mockLogs parserName message timestamp) k =
     (if truthy (find_key toLowerCase mockLogs parserName) \<and>
         find_key toLowerCase mockLogs parserName = Some k
      then map_option (\<lambda>logs. push_capped logs (log_line timestamp message)) (map_of mockLogs k)
      else map_of mockLogs k)"
  unfolding addLog_def Let_def
  using map_of_map_entries
    [of "\<lambda>k. Some k = find_key toLowerCase mockLogs parserName" _ mockLogs k]
  by auto

lemma addLog_unknown:
  "find_key toLowerCase mockLogs parserName = None \<Longrightarrow>
   addLog toLowerCase mockLogs parserName message timestamp = mockLogs"
  by (simp add: addLog_def truthy_def)

lemma length_push_capped: "length logs \<le> 20 \<Longrightarrow> length (push_capped logs line) \<le> 20"
  by (auto simp: push_capped_def Let_def)

lemma push_capped_eq:
  "push_capped logs line = (if length logs < 20 then logs @ [line] else tl logs @ [line])"
  by (cases logs) (auto simp: push_capped_def Let_def)

lemma within_capacity_addLog:
  "within_capacity mockLogs \<Longrightarrow>
   within_capacity (addLog toLowerCase mockLogs parserName message timestamp)"
  by (auto simp: within_capacity_def addLog_def Let_def length_push_capped split: if_splits)

lemma within_capacity_addLogs:
  "within_capacity mockLogs \<Longrightarrow> within_capacity (addLogs toLowerCase mockLogs calls)"
  by (induction toLowerCase mockLogs calls rule: addLogs.induct)
     (auto simp: within_capacity_addLog)

lemma within_capacity_init: "within_capacity mockLogs_init"
  by (simp add: within_capacity_def mockLogs_init_def)

text \<open>A name that resolves to a non-empty key: \<open>addLog\<close> on the key pushes onto its array.\<close>

lemma logical_or_found:
  "logKey \<noteq> [] \<Longrightarrow> logical_or (Some logKey) parserName = logKey"
  by (simp add: logical_or_def)

lemma addLog_canonical:
  assumes "find_key toLowerCase mockLogs parserName = Some logKey" and "logKey \<noteq> []"
    and "object_keys mockLogs' = object_keys mockLogs" and "map_of mockLogs' logKey = Some logs"
  shows "map_of (addLog toLowerCase mockLogs' logKey message timestamp) logKey =
           Some (push_capped logs (log_line timestamp message))"
proof -
  have "find_key toLowerCase mockLogs' logKey = Some logKey"
    using find_key_idem [OF assms(1)] find_key_cong [OF assms(3)] by simp
  then show ?thesis using assms(2,4) by (simp add: map_of_addLog truthy_def)
qed

lemma parser_callback_snd:
  "snd (parser_callback toLowerCase mockLogs parserName effectiveParserName timestamp r) =
     addLog toLowerCase mockLogs effectiveParserName
       (if effectiveParserName = ''CurrencyInfo'' \<and> r < literal_0_2
        then ''Parser execution FAILED.'' else ''Parser execution finished successfully.'')
       timestamp"
  by (simp add: parser_callback_def)

subsection \<open>The server only changes the table through addLog\<close>

lemma start_parser_logs:
  "snd (start_parser toLowerCase mockLogs q timestamp r) = mockLogs \<or>
   (\<exists>n. snd (start_parser toLowerCase mockLogs q timestamp r) =
      addLog toLowerCase mockLogs n ''Parser start requested.'' timestamp)"
  by (auto simp: start_parser_def Let_def split: option.splits)

lemma fire_logs:
  "snd (fire toLowerCase mockLogs t timestamp r) = mockLogs \<or>
   (\<exists>n m. snd (fire toLowerCase mockLogs t timestamp r) = addLog toLowerCase mockLogs n m timestamp)"
  by (cases t) (auto simp: parser_callback_def Let_def)

lemma step_logs:
  "srv_logs (fst (step toLowerCase s e)) = srv_logs s \<or>
   (\<exists>n m t. srv_logs (fst (step toLowerCase s e)) = addLog toLowerCase (srv_logs s) n m t)"
proof (cases e)
  case (StartParser q timestamp r)
  then have "srv_logs (fst (step toLowerCase s e)) =
      snd (start_parser toLowerCase (srv_logs s) q timestamp r)"
    by (auto split: prod.splits handled.splits)
  then show ?thesis
    using start_parser_logs [of toLowerCase "srv_logs s" q timestamp r] by metis
next
  case (TimerFires n timestamp r)
  show ?thesis
  proof (cases "n < length (srv_timers s)")
    case True
    with TimerFires have "srv_logs (fst (step toLowerCase s e)) =
        snd (fire toLowerCase (srv_logs s) (srv_timers s ! n) timestamp r)"
      by (auto split: prod.splits)
    then show ?thesis
      using fire_logs [of toLowerCase "srv_logs s" "srv_timers s ! n" timestamp r] by metis
  next
    case False
    with TimerFires show ?thesis by simp
  qed
qed (auto split: handled.splits)

text \<open>Whatever \<open>addLog\<close> preserves holds of the table after any run of the server.\<close>

lemma run_induct_inv:
  assumes "P (srv_logs s)" and "\<And>st n m t. P st \<Longrightarrow> P (addLog toLowerCase st n m t)"
  shows "P (srv_logs (run toLowerCase s es))"
  using assms(1)
proof (induction es arbitrary: s)
  case Nil
  then show ?case by simp
next
  case (Cons e es)
  have "P (srv_logs (fst (step toLowerCase s e)))"
    using step_logs [of toLowerCase s e] Cons.prems assms(2) by metis
  then show ?case using Cons.IH by simp
qed

lemma within_capacity_run: "within_capacity (srv_logs (run toLowerCase server_init events))"
  by (rule run_induct_inv) (simp_all add: server_init_def within_capacity_init within_capacity_addLog)

lemma object_keys_run:
  "object_keys (srv_logs (run toLowerCase server_init events)) = object_keys mockLogs_init"
  by (rule run_induct_inv [where P = "\<lambda>st. object_keys st = object_keys mockLogs_init"])
     (simp_all add: server_init_def object_keys_addLog)

text \<open>A key that a lookup finds in the table of the server is one of the five, so not empty.\<close>

lemma found_key_nonempty:
  assumes "find_key toLowerCase (srv_logs (run toLowerCase server_init events)) parserName =
             Some logKey"
  shows "logKey \<noteq> []"
proof -
  have "logKey \<in> set (object_keys mockLogs_init)"
    using find_key_mem [OF assms] by (simp add: object_keys_run)
  then show ?thesis by (auto simp: object_keys_def mockLogs_init_def)
qed

subsection \<open>C1: capacity 20, first in first out\<close>

text \<open>
  Claim C1. After any sequence of \<open>addLog\<close> calls on the initial table, and after any run
  of the server, every array of the table holds at most 20 lines. A call whose name
  matches the key \<open>logKey\<close> puts the new line at the back of that key's array, and when
  the array already holds 20 lines (or more) its first line is removed.
\<close>

theorem addLog_capacity_fifo:
  "within_capacity (addLogs toLowerCase mockLogs_init calls) \<and>
   within_capacity (srv_logs (run toLowerCase server_init events)) \<and>
   (find_key toLowerCase mockLogs parserName = Some logKey \<and> logKey \<noteq> [] \<and>
    map_of mockLogs logKey = Some logs \<longrightarrow>
      map_of (addLog toLowerCase mockLogs parserName message timestamp) logKey =
        Some (if length logs < 20 then logs @ [log_line timestamp message]
              else tl logs @ [log_line timestamp message]))"
  by (simp add: within_capacity_addLogs within_capacity_init within_capacity_run
      map_of_addLog truthy_def push_capped_eq)

theorem addLog_capacity_fifo_witness:
  "find_key toLowerCase_latin [(''Sale'', map decimal [0..<20]), (''CurrencyInfo'', [])] ''SALE''
     = Some ''Sale'' \<and>
   map_of (addLog toLowerCase_latin [(''Sale'', map decimal [0..<20]), (''CurrencyInfo'', [])]
             ''SALE'' ''m'' ''t'') ''Sale''
     = Some (tl (map decimal [0..<20]) @ [log_line ''t'' ''m'']) \<and>
   within_capacity
     (addLogs toLowerCase_latin mockLogs_init [(''sale'', ''a'', ''t''), (''Nope'', ''b'', ''u'')])"
proof -
  have k: "find_key toLowerCase_latin [(''Sale'', map decimal [0..<20]), (''CurrencyInfo'', [])]
             ''SALE'' = Some ''Sale''"
    by code_simp
  show ?thesis
    using k addLog_capacity_fifo [where toLowerCase = toLowerCase_latin
        and calls = "[(''sale'', ''a'', ''t''), (''Nope'', ''b'', ''u'')]"
        and events = "[]" and mockLogs = "[(''Sale'', map decimal [0..<20]), (''CurrencyInfo'', [])]"
        and parserName = "''SALE''" and logKey = "''Sale''" and logs = "map decimal [0..<20]"
        and timestamp = "''t''" and message = "''m''"]
    by simp
qed

subsection \<open>C10: the keys of the table, and what addLog leaves alone\<close>

lemma nth_addLog_other:
  "i < length mockLogs \<Longrightarrow>
   Some (fst (mockLogs ! i)) \<noteq> find_key toLowerCase mockLogs parserName \<Longrightarrow>
   addLog toLowerCase mockLogs parserName message timestamp ! i = mockLogs ! i"
  by (auto simp: addLog_def Let_def split: prod.splits)

text \<open>
  Claim C10. The table starts with the five keys Sale, CurrencyInfo, PackageIdPrice,
  PackageIdSaleInfo and BundleIdSaleInfo, each with an empty array, and has exactly these
  keys, in this order, after any run of the server. \<open>addLog\<close> never changes the keys;
  with a name that matches no key it returns the table as it was, and with a name that
  matches \<open>logKey\<close> it leaves every entry under another key as it was.
\<close>

theorem log_store_keys_frame:
  "mockLogs_init =
     [(''Sale'', []), (''CurrencyInfo'', []), (''PackageIdPrice'', []),
      (''PackageIdSaleInfo'', []), (''BundleIdSaleInfo'', [])] \<and>
   srv_logs server_init = mockLogs_init \<and>
   object_keys (srv_logs (run toLowerCase server_init events)) =
     [''Sale'', ''CurrencyInfo'', ''PackageIdPrice'', ''PackageIdSaleInfo'', ''BundleIdSaleInfo''] \<and>
   object_keys (addLog toLowerCase mockLogs parserName message timestamp) = object_keys mockLogs \<and>
   (find_key toLowerCase mockLogs parserName = None \<longrightarrow>
      addLog toLowerCase mockLogs parserName message timestamp = mockLogs) \<and>
   (find_key toLowerCase mockLogs parserName = Some logKey \<longrightarrow>
      (\<forall>i < length mockLogs. fst (mockLogs ! i) \<noteq> logKey \<longrightarrow>
         addLog toLowerCase mockLogs parserName message timestamp ! i = mockLogs ! i))"
proof -
  have "object_keys (srv_logs (run toLowerCase server_init events)) =
     [''Sale'', ''CurrencyInfo'', ''PackageIdPrice'', ''PackageIdSaleInfo'', ''BundleIdSaleInfo'']"
    by (simp add: object_keys_run) (simp add: object_keys_def mockLogs_init_def)
  then show ?thesis
    by (simp add: mockLogs_init_def server_init_def object_keys_addLog addLog_unknown
        nth_addLog_other)
qed

theorem log_store_keys_frame_witness:
  "find_key toLowerCase_latin mockLogs_init ''Unknown'' = None \<and>
   addLog toLowerCase_latin mockLogs_init ''Unknown'' ''m'' ''t'' = mockLogs_init \<and>
   find_key toLowerCase_latin mockLogs_init ''currencyinfo'' = Some ''CurrencyInfo'' \<and>
   (0::nat) < length mockLogs_init \<and> fst (mockLogs_init ! 0) \<noteq> ''CurrencyInfo'' \<and>
   addLog toLowerCase_latin mockLogs_init ''currencyinfo'' ''m'' ''t'' ! 0 = mockLogs_init ! 0 \<and>
   find_key toLowerCase_latin mockLogs_init (''Pac'' @ [CHR 0xE2, CHR 0x84, CHR 0xAA] @ ''ageIdPrice'')
     = Some ''PackageIdPrice'' \<and>
   fst (mockLogs_init ! 0) \<noteq> ''PackageIdPrice'' \<and>
   addLog toLowerCase_latin mockLogs_init (''Pac'' @ [CHR 0xE2, CHR 0x84, CHR 0xAA] @ ''ageIdPrice'')
     ''m'' ''t'' ! 0 = mockLogs_init ! 0"
proof -
  have a: "find_key toLowerCase_latin mockLogs_init ''Unknown'' = None" by code_simp
  have b: "find_key toLowerCase_latin mockLogs_init ''currencyinfo'' = Some ''CurrencyInfo''"
    by code_simp
  have b': "find_key toLowerCase_latin mockLogs_init
      (''Pac'' @ [CHR 0xE2, CHR 0x84, CHR 0xAA] @ ''ageIdPrice'') = Some ''PackageIdPrice''"
    by code_simp
  have c: "(0::nat) < length mockLogs_init \<and> fst (mockLogs_init ! 0) \<noteq> ''CurrencyInfo'' \<and>
      fst (mockLogs_init ! 0) \<noteq> ''PackageIdPrice''"
    by (simp add: mockLogs_init_def)
  show ?thesis
    using a b b' c
      log_store_keys_frame [where toLowerCase = toLowerCase_latin and mockLogs = mockLogs_init
        and parserName = "''Unknown''" and message = "''m''" and timestamp = "''t''"]
      log_store_keys_frame [where toLowerCase = toLowerCase_latin and mockLogs = mockLogs_init
        and parserName = "''currencyinfo''" and message = "''m''" and timestamp = "''t''"
        and logKey = "''CurrencyInfo''"]
      log_store_keys_frame [where toLowerCase = toLowerCase_latin and mockLogs = mockLogs_init
        and parserName = "''Pac'' @ [CHR 0xE2, CHR 0x84, CHR 0xAA] @ ''ageIdPrice''"
        and message = "''m''" and timestamp = "''t''" and logKey = "''PackageIdPrice''"]
    by blast
qed

subsection \<open>C4: a missing parameter\<close>

text \<open>
  Claim C4. Without the \<open>parser\<close> parameter \<open>/start_parser\<close> answers at once with status
  400 and the message \<open>Query parameter "parser" is required\<close>, and without the \<open>method\<close>
  parameter \<open>/start_table_process\<close> answers at once with status 400 and the message
  \<open>Query parameter "method" is required\<close>. In both cases the state of the server, the table
  and the pending timers, is what it was: no line is added and no timer is set. An empty
  parameter is handled like a missing one.
\<close>

theorem missing_parameter_400:
  \<open>start_parser toLowerCase mockLogs None timestamp r =
     (Replied (Response 400
        [(''status'', JNum 400), (''message'', JStr ''Query parameter "parser" is required'')]),
      mockLogs) \<and>
   start_table_process None args r =
     (Replied (Response 400
        [(''status'', JNum 400), (''message'', JStr ''Query parameter "method" is required'')]),
      None) \<and>
   step toLowerCase s (StartParser None timestamp r) =
     (s, Some (Inr (Response 400
        [(''status'', JNum 400), (''message'', JStr ''Query parameter "parser" is required'')]))) \<and>
   step toLowerCase s (StartTableProcess None args r) =
     (s, Some (Inr (Response 400
        [(''status'', JNum 400), (''message'', JStr ''Query parameter "method" is required'')]))) \<and>
   step toLowerCase s (StartParser (Some []) timestamp r) =
     step toLowerCase s (StartParser None timestamp r) \<and>
   step toLowerCase s (StartTableProcess (Some []) args r) =
     step toLowerCase s (StartTableProcess None args r)\<close>
  by (simp add: start_parser_def start_table_process_def missing_parser_def missing_method_def)

subsection \<open>C7: logs of an unknown name\<close>

text \<open>
  Claim C7. When the name in the path matches no key of the table, \<open>/get_logs\<close> answers
  with status 404 and the message \<open>No logs found for unknown parser: <name>\<close>, and the
  state of the server is unchanged.
\<close>

theorem get_logs_unknown_404:
  "find_key toLowerCase (srv_logs s) parserName = None \<Longrightarrow>
   get_logs toLowerCase (srv_logs s) parserName timestamp token =
     Inr (Response 404
       [(''status'', JNum 404),
        (''message'', JStr (''No logs found for unknown parser: '' @ parserName))]) \<and>
   step toLowerCase s (GetLogs parserName timestamp token) =
     (s, Some (Inr (Response 404
       [(''status'', JNum 404),
        (''message'', JStr (''No logs found for unknown parser: '' @ parserName))])))"
  by (simp add: get_logs_def)

theorem get_logs_unknown_404_witness:
  "find_key toLowerCase_latin (srv_logs server_init) ''Nope'' = None \<and>
   step toLowerCase_latin server_init (GetLogs ''Nope'' ''t'' decimal) =
     (server_init, Some (Inr (Response 404
       [(''status'', JNum 404), (''message'', JStr ''No logs found for unknown parser: Nope'')]))) \<and>
   find_key toLowerCase_latin (srv_logs server_init)
     (''Pac'' @ [CHR 0xE2, CHR 0x84, CHR 0xAA] @ ''ageIdPrice'') = Some ''PackageIdPrice''"
proof -
  have a: "find_key toLowerCase_latin (srv_logs server_init) ''Nope'' = None" by code_simp
  have b: "find_key toLowerCase_latin (srv_logs server_init)
     (''Pac'' @ [CHR 0xE2, CHR 0x84, CHR 0xAA] @ ''ageIdPrice'') = Some ''PackageIdPrice''"
    by code_simp
  show ?thesis
    using a b get_logs_unknown_404 [OF a, of "''t''" decimal] by simp
qed

subsection \<open>C8: table processes\<close>

text \<open>
  Claim C8 says that every \<open>/start_table_process\<close> request with the \<open>method\<close> parameter
  present gets the delayed answer 200. A request \<open>?method=\<close> has the parameter, with the empty
  string as its value; the handler's test \<open>!methodName\<close> holds for it, and the answer is 400
  at once, with no timer set.
\<close>

theorem table_process_empty_method_counterexample:
  \<open>start_table_process (Some []) (Some ''["main"]'') 0 =
     (Replied (Response 400
        [(''status'', JNum 400), (''message'', JStr ''Query parameter "method" is required'')]),
      None) \<and>
   step toLowerCase_latin server_init (StartTableProcess (Some []) (Some ''["main"]'') 0) =
     (server_init, Some (Inr (Response 400
        [(''status'', JNum 400), (''message'', JStr ''Query parameter "method" is required'')])))\<close>
  by (simp add: start_table_process_def missing_method_def)

text \<open>
  Claim C8, amended. When the \<open>method\<close> parameter is present and not empty, the request sets
  a timer whatever \<open>args\<close> is, and the table is not touched. The handler writes the warning
  \<open>Warning: Expected args='["main"]' for set_shop_price, but received: <args>\<close> exactly when
  the method is \<open>set_shop_price\<close> and \<open>args\<close> is not the string \<open>["main"]\<close>, and writes none
  otherwise; the warning changes nothing else. The callback of the timer answers with
  status 200, the message \<open>Table process <method> finished successfully (mock).\<close> and the
  field \<open>method\<close>, again without touching the table.
\<close>

theorem table_process_always_200:
  \<open>methodName \<noteq> [] \<Longrightarrow>
   start_table_process (Some methodName) args r =
     (Scheduled (TableTimer (table_delay r) methodName),
      if methodName = ''set_shop_price'' \<and> args \<noteq> Some ''["main"]'' then
        Some (''Warning: Expected args='' @ [CHR 0x27] @ ''["main"]'' @ [CHR 0x27]
              @ '' for set_shop_price, but received: ''
              @ (case args of None \<Rightarrow> ''undefined'' | Some a \<Rightarrow> a))
      else None) \<and>
   step toLowerCase s (StartTableProcess (Some methodName) args r) =
     (s\<lparr>srv_timers := srv_timers s @ [TableTimer (table_delay r) methodName]\<rparr>, None) \<and>
   fire toLowerCase mockLogs (TableTimer delay methodName) timestamp r' =
     (Response 200
        [(''status'', JNum 200),
         (''message'', JStr (''Table process '' @ methodName @ '' finished successfully (mock).'')),
         (''method'', JStr methodName)],
      mockLogs)\<close>
  by (simp add: start_table_process_def table_callback_def args_warning_def args_text_def)

theorem table_process_always_200_witness:
  \<open>''set_shop_price'' \<noteq> [] \<and>
   start_table_process (Some ''set_shop_price'') (Some ''["wrong"]'') 0 =
     (Scheduled (TableTimer (table_delay 0) ''set_shop_price''),
      Some (''Warning: Expected args='' @ [CHR 0x27] @ ''["main"]'' @ [CHR 0x27]
            @ '' for set_shop_price, but received: ["wrong"]'')) \<and>
   start_table_process (Some ''set_shop_price'') (Some ''["main"]'') 0 =
     (Scheduled (TableTimer (table_delay 0) ''set_shop_price''), None) \<and>
   fire toLowerCase_latin mockLogs_init (TableTimer (table_delay 0) ''set_shop_price'') ''t'' 0 =
     (Response 200
        [(''status'', JNum 200),
         (''message'', JStr ''Table process set_shop_price finished successfully (mock).''),
         (''method'', JStr ''set_shop_price'')],
      mockLogs_init)\<close>
proof -
  have a: "''set_shop_price'' \<noteq> []" by simp
  show ?thesis
    using
      table_process_always_200 [OF a, where args = \<open>Some ''["wrong"]''\<close> and r = 0
        and toLowerCase = toLowerCase_latin and mockLogs = mockLogs_init
        and delay = "table_delay 0" and timestamp = "''t''" and r' = 0]
      table_process_always_200 [OF a, where args = \<open>Some ''["main"]''\<close> and r = 0
        and toLowerCase = toLowerCase_latin and mockLogs = mockLogs_init
        and delay = "table_delay 0" and timestamp = "''t''" and r' = 0]
    by simp
qed

subsection \<open>C2: the log lines of a parser job\<close>

text \<open>
  Claim C2 says that every \<open>/start_parser\<close> request with a name appends one
  "start requested" line at once and one "finished"/"FAILED" line when the timer fires,
  also for a name that matches no key. For such a name \<open>addLog\<close> finds no key and appends
  nothing: after the request and after the callback the table is what it was.
\<close>

theorem start_parser_unknown_name_counterexample:
  "find_key toLowerCase_latin mockLogs_init ''UnknownJob'' = None \<and>
   start_parser toLowerCase_latin mockLogs_init (Some ''UnknownJob'') ''t'' 0 =
     (Scheduled (ParserTimer 1000 ''UnknownJob'' ''UnknownJob''), mockLogs_init) \<and>
   snd (fire toLowerCase_latin mockLogs_init (ParserTimer 1000 ''UnknownJob'' ''UnknownJob'') ''u'' 0)
     = mockLogs_init"
  by code_simp

text \<open>
  Claim C2, amended. Let the name be a non-empty string, and let \<open>mockLogs'\<close> be the table
  when the timer fires (it has the keys of \<open>mockLogs\<close>, see C10). If the name matches the
  key \<open>logKey\<close> (not empty, as the five keys are), the request sets the timer and pushes
  exactly one line \<open>[timestamp] Parser start requested.\<close> onto the array of \<open>logKey\<close>, before
  the timer is set, and the callback pushes exactly one line, "finished successfully" or
  "FAILED", onto the same array (each push followed by the eviction of C1). If the name
  matches no key, the timer is set all the same, with the name as given, and neither the
  request nor the callback changes the table.
\<close>

theorem start_parser_log_entries:
  assumes "parserName \<noteq> []" and "object_keys mockLogs' = object_keys mockLogs"
  shows
    "(find_key toLowerCase mockLogs parserName = Some logKey \<and> logKey \<noteq> [] \<longrightarrow>
        start_parser toLowerCase mockLogs (Some parserName) timestamp r =
          (Scheduled (ParserTimer (parser_delay r) parserName logKey),
           addLog toLowerCase mockLogs logKey ''Parser start requested.'' timestamp) \<and>
        (\<forall>logs. map_of mockLogs logKey = Some logs \<longrightarrow>
           map_of (addLog toLowerCase mockLogs logKey ''Parser start requested.'' timestamp) logKey =
             Some (push_capped logs (log_line timestamp ''Parser start requested.''))) \<and>
        (\<exists>outcome \<in> {''Parser execution finished successfully.'', ''Parser execution FAILED.''}.
           snd (fire toLowerCase mockLogs' (ParserTimer (parser_delay r) parserName logKey)
                  timestamp' r') =
             addLog toLowerCase mockLogs' logKey outcome timestamp' \<and>
           (\<forall>logs'. map_of mockLogs' logKey = Some logs' \<longrightarrow>
              map_of (addLog toLowerCase mockLogs' logKey outcome timestamp') logKey =
                Some (push_capped logs' (log_line timestamp' outcome))))) \<and>
     (find_key toLowerCase mockLogs parserName = None \<longrightarrow>
        start_parser toLowerCase mockLogs (Some parserName) timestamp r =
          (Scheduled (ParserTimer (parser_delay r) parserName parserName), mockLogs) \<and>
        snd (fire toLowerCase mockLogs' (ParserTimer (parser_delay r) parserName parserName)
               timestamp' r') =
          mockLogs')"
proof (intro conjI impI)
  assume kk: "find_key toLowerCase mockLogs parserName = Some logKey \<and> logKey \<noteq> []"
  then have k: "find_key toLowerCase mockLogs parserName = Some logKey" and ne: "logKey \<noteq> []"
    by simp_all
  show "start_parser toLowerCase mockLogs (Some parserName) timestamp r =
          (Scheduled (ParserTimer (parser_delay r) parserName logKey),
           addLog toLowerCase mockLogs logKey ''Parser start requested.'' timestamp)"
    using assms(1) k logical_or_found [OF ne] by (simp add: start_parser_def Let_def)
  show "\<forall>logs. map_of mockLogs logKey = Some logs \<longrightarrow>
           map_of (addLog toLowerCase mockLogs logKey ''Parser start requested.'' timestamp) logKey =
             Some (push_capped logs (log_line timestamp ''Parser start requested.''))"
    using addLog_canonical [OF k ne refl] by blast
  show "\<exists>outcome \<in> {''Parser execution finished successfully.'', ''Parser execution FAILED.''}.
           snd (fire toLowerCase mockLogs' (ParserTimer (parser_delay r) parserName logKey)
                  timestamp' r') =
             addLog toLowerCase mockLogs' logKey outcome timestamp' \<and>
           (\<forall>logs'. map_of mockLogs' logKey = Some logs' \<longrightarrow>
              map_of (addLog toLowerCase mockLogs' logKey outcome timestamp') logKey =
                Some (push_capped logs' (log_line timestamp' outcome)))"
  proof (cases "logKey = ''CurrencyInfo'' \<and> r' < literal_0_2")
    case True
    then have "snd (fire toLowerCase mockLogs' (ParserTimer (parser_delay r) parserName logKey)
                  timestamp' r') =
        addLog toLowerCase mockLogs' logKey ''Parser execution FAILED.'' timestamp'"
      by (simp add: parser_callback_def)
    then show ?thesis using addLog_canonical [OF k ne assms(2)] by blast
  next
    case False
    then have "snd (fire toLowerCase mockLogs' (ParserTimer (parser_delay r) parserName logKey)
                  timestamp' r') =
        addLog toLowerCase mockLogs' logKey ''Parser execution finished successfully.'' timestamp'"
      by (auto simp: parser_callback_def)
    then show ?thesis using addLog_canonical [OF k ne assms(2)] by blast
  qed
next
  assume n: "find_key toLowerCase mockLogs parserName = None"
  show "start_parser toLowerCase mockLogs (Some parserName) timestamp r =
          (Scheduled (ParserTimer (parser_delay r) parserName parserName), mockLogs)"
    using assms(1) n by (simp add: start_parser_def Let_def logical_or_def addLog_unknown)
  have "find_key toLowerCase mockLogs' parserName = None"
    using n find_key_cong [OF assms(2)] by simp
  then have "\<And>m t. addLog toLowerCase mockLogs' parserName m t = mockLogs'"
    by (rule addLog_unknown)
  then show "snd (fire toLowerCase mockLogs' (ParserTimer (parser_delay r) parserName parserName)
               timestamp' r') =
          mockLogs'"
    by (simp only: fire.simps parser_callback_snd)
qed

theorem start_parser_log_entries_witness:
  "''sale'' \<noteq> [] \<and> object_keys mockLogs_init = object_keys mockLogs_init \<and>
   find_key toLowerCase_latin mockLogs_init ''sale'' = Some ''Sale'' \<and> ''Sale'' \<noteq> [] \<and>
   start_parser toLowerCase_latin mockLogs_init (Some ''sale'') ''t'' 0 =
     (Scheduled (ParserTimer (parser_delay 0) ''sale'' ''Sale''),
      addLog toLowerCase_latin mockLogs_init ''Sale'' ''Parser start requested.'' ''t'') \<and>
   map_of (addLog toLowerCase_latin mockLogs_init ''Sale'' ''Parser start requested.'' ''t'') ''Sale'' =
     Some (push_capped [] (log_line ''t'' ''Parser start requested.'')) \<and>
   find_key toLowerCase_latin mockLogs_init (''Pac'' @ [CHR 0xE2, CHR 0x84, CHR 0xAA] @ ''ageIdPrice'')
     = Some ''PackageIdPrice'' \<and>
   map_of (snd (start_parser toLowerCase_latin mockLogs_init
                  (Some (''Pac'' @ [CHR 0xE2, CHR 0x84, CHR 0xAA] @ ''ageIdPrice'')) ''t'' 0))
      ''PackageIdPrice'' =
     Some (push_capped [] (log_line ''t'' ''Parser start requested.'')) \<and>
   find_key toLowerCase_latin mockLogs_init ''Nope'' = None \<and>
   start_parser toLowerCase_latin mockLogs_init (Some ''Nope'') ''t'' 0 =
     (Scheduled (ParserTimer (parser_delay 0) ''Nope'' ''Nope''), mockLogs_init)"
proof -
  have a: "''sale'' \<noteq> []" and a': "''Nope'' \<noteq> []"
    and a'': "''Pac'' @ [CHR 0xE2, CHR 0x84, CHR 0xAA] @ ''ageIdPrice'' \<noteq> []" by simp_all
  have k: "find_key toLowerCase_latin mockLogs_init ''sale'' = Some ''Sale''" by code_simp
  have k'': "find_key toLowerCase_latin mockLogs_init
      (''Pac'' @ [CHR 0xE2, CHR 0x84, CHR 0xAA] @ ''ageIdPrice'') = Some ''PackageIdPrice''"
    by code_simp
  have n: "find_key toLowerCase_latin mockLogs_init ''Nope'' = None" by code_simp
  have m: "map_of mockLogs_init ''Sale'' = Some []" "map_of mockLogs_init ''PackageIdPrice'' = Some []"
    by (simp_all add: mockLogs_init_def)
  have e: "''Sale'' \<noteq> []" "''PackageIdPrice'' \<noteq> []" by simp_all
  have 1: "start_parser toLowerCase_latin mockLogs_init (Some ''sale'') ''t'' 0 =
     (Scheduled (ParserTimer (parser_delay 0) ''sale'' ''Sale''),
      addLog toLowerCase_latin mockLogs_init ''Sale'' ''Parser start requested.'' ''t'') \<and>
    map_of (addLog toLowerCase_latin mockLogs_init ''Sale'' ''Parser start requested.'' ''t'') ''Sale'' =
     Some (push_capped [] (log_line ''t'' ''Parser start requested.''))"
    using k m e
      start_parser_log_entries [OF a refl, where toLowerCase = toLowerCase_latin
        and mockLogs = mockLogs_init and logKey = "''Sale''" and timestamp = "''t''" and r = 0]
    by blast
  have 2: "map_of (snd (start_parser toLowerCase_latin mockLogs_init
                  (Some (''Pac'' @ [CHR 0xE2, CHR 0x84, CHR 0xAA] @ ''ageIdPrice'')) ''t'' 0))
      ''PackageIdPrice'' =
     Some (push_capped [] (log_line ''t'' ''Parser start requested.''))"
    using k'' m e
      start_parser_log_entries [OF a'' refl, where toLowerCase = toLowerCase_latin
        and mockLogs = mockLogs_init and logKey = "''PackageIdPrice''" and timestamp = "''t''"
        and r = 0]
    by (metis snd_conv)
  have 3: "start_parser toLowerCase_latin mockLogs_init (Some ''Nope'') ''t'' 0 =
     (Scheduled (ParserTimer (parser_delay 0) ''Nope'' ''Nope''), mockLogs_init)"
    using n
      start_parser_log_entries [OF a' refl, where toLowerCase = toLowerCase_latin
        and mockLogs = mockLogs_init and timestamp = "''t''" and r = 0]
    by blast
  show ?thesis using a k k'' n e 1 2 3 by blast
qed

subsection \<open>C3: when a parser job fails\<close>

text \<open>
  Claim C3. For a request with a name (a non-empty string, so that the handler's test
  \<open>!parserName\<close> fails) the timer is set with the resolved name \<open>logKey || parserName\<close>. When
  the timer fires with the draw \<open>r'\<close>, a binary64 value, the answer is status 500 with the
  message \<open>Mock error during <name> parsing\<close> exactly when the resolved name is the string
  \<open>CurrencyInfo\<close> and \<open>r'\<close> is below 0.2, and otherwise status 200 with the message
  \<open>Parser <name> started and finished successfully (mock).\<close>; \<open><name>\<close> and the field
  \<open>parser\<close> are the name as the request gave it.
\<close>

theorem parser_outcome:
  assumes "parserName \<noteq> []" and "is_double r'"
  shows
    "start_parser toLowerCase mockLogs (Some parserName) timestamp r =
       (Scheduled (ParserTimer (parser_delay r) parserName
          (logical_or (find_key toLowerCase mockLogs parserName) parserName)),
        addLog toLowerCase mockLogs (logical_or (find_key toLowerCase mockLogs parserName) parserName)
          ''Parser start requested.'' timestamp) \<and>
     fst (fire toLowerCase mockLogs' (ParserTimer delay parserName effectiveParserName) timestamp' r') =
       (if effectiveParserName = ''CurrencyInfo'' \<and> r' < 1 / 5 then
          Response 500
            [(''status'', JNum 500),
             (''message'', JStr (''Mock error during '' @ parserName @ '' parsing'')),
             (''parser'', JStr parserName)]
        else
          Response 200
            [(''status'', JNum 200),
             (''message'',
                JStr (''Parser '' @ parserName @ '' started and finished successfully (mock).'')),
             (''parser'', JStr parserName)])"
  using assms(1) below_literal_0_2 [OF assms(2)]
  by (simp add: start_parser_def Let_def parser_callback_def)

theorem parser_outcome_witness:
  "''currencyinfo'' \<noteq> [] \<and> is_double (1 / 8) \<and>
   start_parser toLowerCase_latin mockLogs_init (Some ''currencyinfo'') ''t'' 0 =
     (Scheduled (ParserTimer (parser_delay 0) ''currencyinfo''
        (logical_or (find_key toLowerCase_latin mockLogs_init ''currencyinfo'') ''currencyinfo'')),
      addLog toLowerCase_latin mockLogs_init
        (logical_or (find_key toLowerCase_latin mockLogs_init ''currencyinfo'') ''currencyinfo'')
        ''Parser start requested.'' ''t'') \<and>
   logical_or (find_key toLowerCase_latin mockLogs_init ''currencyinfo'') ''currencyinfo'' =
     ''CurrencyInfo'' \<and>
   fst (fire toLowerCase_latin mockLogs_init (ParserTimer 1000 ''currencyinfo'' ''CurrencyInfo'')
          ''u'' (1 / 8)) =
     Response 500
       [(''status'', JNum 500),
        (''message'', JStr ''Mock error during currencyinfo parsing''),
        (''parser'', JStr ''currencyinfo'')]"
proof -
  have a: "''currencyinfo'' \<noteq> []" by simp
  have d: "is_double (1 / 8)" by code_simp
  have k: "logical_or (find_key toLowerCase_latin mockLogs_init ''currencyinfo'') ''currencyinfo'' =
      ''CurrencyInfo''"
    by code_simp
  show ?thesis
    using a d k
      parser_outcome [OF a d, where toLowerCase = toLowerCase_latin and mockLogs = mockLogs_init
        and timestamp = "''t''" and r = 0 and mockLogs' = mockLogs_init and delay = 1000
        and effectiveParserName = "''CurrencyInfo''" and timestamp' = "''u''"]
    by simp
qed

subsection \<open>C9: the range of the delays\<close>

text \<open>
  Claim C9 says that for every draw \<open>r\<close> in \<open>[0, 1)\<close> the delay \<open>r * 3000 + 1000\<close> lies in
  \<open>[1000, 4000)\<close> and the delay \<open>r * 1000 + 500\<close> lies in \<open>[500, 1500)\<close>. The draw
  \<open>1 - 1 / 2 ^ 53\<close>, the largest binary64 value below 1, gives the second delay the value
  1500: the product rounds to \<open>1000 - 1 / 2 ^ 43\<close>, and the sum \<open>1500 - 1 / 2 ^ 43\<close> lies
  halfway between two binary64 values and rounds to the even one, 1500.
\<close>

theorem table_delay_reaches_1500:
  "is_double (1 - 1 / 2 ^ 53) \<and> (0::rat) \<le> 1 - 1 / 2 ^ 53 \<and> (1 - 1 / 2 ^ 53 :: rat) < 1 \<and>
   \<not> table_delay (1 - 1 / 2 ^ 53) < 1500"
  by code_simp

text \<open>
  Claim C9, amended. For every binary64 draw \<open>r\<close> with \<open>0 \<le> r < 1\<close>, the delay of
  \<open>/start_parser\<close> lies in \<open>[1000, 4000)\<close> and the delay of \<open>/start_table_process\<close> lies in
  \<open>[500, 1500]\<close>, the upper end included. The exact values \<open>r * 3000 + 1000\<close> and
  \<open>r * 1000 + 500\<close>, before rounding, lie in \<open>[1000, 4000)\<close> and \<open>[500, 1500)\<close>.
\<close>

theorem delay_ranges:
  assumes "is_double r" and "0 \<le> r" and "r < 1"
  shows "1000 \<le> parser_delay r \<and> parser_delay r < 4000 \<and>
         500 \<le> table_delay r \<and> table_delay r \<le> 1500 \<and>
         1000 \<le> r * 3000 + 1000 \<and> r * 3000 + 1000 < 4000 \<and>
         500 \<le> r * 1000 + 500 \<and> r * 1000 + 500 < 1500"
  using parser_delay_range [OF assms] table_delay_range [OF assms] assms(2,3) by simp

theorem delay_ranges_witness:
  "is_double (1 / 2) \<and> (0::rat) \<le> 1 / 2 \<and> (1 / 2 :: rat) < 1 \<and>
   1000 \<le> parser_delay (1 / 2) \<and> parser_delay (1 / 2) < 4000 \<and>
   500 \<le> table_delay (1 / 2) \<and> table_delay (1 / 2) \<le> 1500"
proof -
  have d: "is_double (1 / 2)" by code_simp
  show ?thesis using d delay_ranges [OF d] by simp
qed

subsection \<open>C5 and C6: the logs of a known name\<close>

lemma long_log_loop_eq:
  "long_log_loop token i logsToSend =
     logsToSend @ concat (map (long_log_line token) [i..<500])"
proof (induction token i logsToSend rule: long_log_loop.induct)
  case (1 token i logsToSend)
  show ?case
  proof (cases "i < 500")
    case True
    then have "[i..<500] = i # [i + 1..<500]" by (simp add: upt_conv_Cons)
    with True "1" show ?thesis by (simp add: long_log_loop.simps [of token i])
  next
    case False
    then show ?thesis by (simp add: long_log_loop.simps [of token i])
  qed
qed

lemma get_logs_found:
  assumes "find_key toLowerCase mockLogs parserName = Some logKey" and "logKey \<noteq> []"
    and "map_of mockLogs logKey = Some logs"
  shows "get_logs toLowerCase mockLogs parserName timestamp token =
     Inr (Response 200
       [(''status'', JNum 200),
        (''message'', JStr
           ((if logs = [] then ''['' @ timestamp @ ''] No logs recorded yet for '' @ logKey @ ''.''
             else join_newline logs)
            @ (if logKey = ''Sale'' \<and> logs \<noteq> [] then
                 ''\<newline>----- START LONG LOG -----\<newline>''
                 @ concat (map (long_log_line token) [0..<500])
                 @ ''----- END LONG LOG -----''
               else [])))])"
  using assms by (simp add: get_logs_def Let_def long_log_loop_eq)

text \<open>
  Claim C5 says that for a name that matches a key with a non-empty array the message is
  the stored lines joined by newlines. For the key \<open>Sale\<close> the message goes on after them:
  after one "start requested" line for Sale the message is not that line alone.
\<close>

theorem get_logs_sale_counterexample:
  "find_key toLowerCase_latin
     (addLog toLowerCase_latin mockLogs_init ''Sale'' ''Parser start requested.'' ''t'') ''Sale''
     = Some ''Sale'' \<and>
   map_of (addLog toLowerCase_latin mockLogs_init ''Sale'' ''Parser start requested.'' ''t'') ''Sale'' =
     Some [''[t] Parser start requested.''] \<and>
   get_logs toLowerCase_latin
     (addLog toLowerCase_latin mockLogs_init ''Sale'' ''Parser start requested.'' ''t'')
     ''Sale'' ''u'' decimal \<noteq>
     Inr (Response 200
       [(''status'', JNum 200),
        (''message'', JStr (join_newline [''[t] Parser start requested.'']))])"
proof -
  have k: "find_key toLowerCase_latin
     (addLog toLowerCase_latin mockLogs_init ''Sale'' ''Parser start requested.'' ''t'') ''Sale''
     = Some ''Sale''"
    by code_simp
  have m: "map_of (addLog toLowerCase_latin mockLogs_init ''Sale'' ''Parser start requested.'' ''t'')
      ''Sale'' = Some [''[t] Parser start requested.'']"
    by code_simp
  have n: "''Sale'' \<noteq> []" by simp
  show ?thesis
    using k m by (simp add: get_logs_found [OF k n m])
qed

text \<open>
  Claim C5, amended. Let the name in the path match the key \<open>logKey\<close> (not empty, as the
  five keys are), whose array is \<open>logs\<close>. The answer has status 200. When \<open>logs\<close> is empty
  the message is \<open>[<timestamp>] No logs recorded yet for <logKey>.\<close>, with the key in its
  canonical casing. When \<open>logs\<close> is not empty and the key is not \<open>Sale\<close>, the message is the
  stored lines joined by newlines, in stored order. When \<open>logs\<close> is not empty and the key
  is \<open>Sale\<close>, the message is the stored lines joined by newlines followed by the block of
  claim C6.
\<close>

theorem get_logs_known:
  assumes "find_key toLowerCase mockLogs parserName = Some logKey" and "logKey \<noteq> []"
    and "map_of mockLogs logKey = Some logs"
  shows
    "(logs = [] \<longrightarrow>
        get_logs toLowerCase mockLogs parserName timestamp token =
          Inr (Response 200
            [(''status'', JNum 200),
             (''message'',
                JStr (''['' @ timestamp @ ''] No logs recorded yet for '' @ logKey @ ''.''))])) \<and>
     (logs \<noteq> [] \<and> logKey \<noteq> ''Sale'' \<longrightarrow>
        get_logs toLowerCase mockLogs parserName timestamp token =
          Inr (Response 200 [(''status'', JNum 200), (''message'', JStr (join_newline logs))])) \<and>
     (logs \<noteq> [] \<and> logKey = ''Sale'' \<longrightarrow>
        get_logs toLowerCase mockLogs parserName timestamp token =
          Inr (Response 200
            [(''status'', JNum 200),
             (''message'',
                JStr (join_newline logs
                      @ ''\<newline>----- START LONG LOG -----\<newline>''
                      @ concat (map (long_log_line token) [0..<500])
                      @ ''----- END LONG LOG -----''))]))"
  by (simp add: get_logs_found [OF assms])

theorem get_logs_known_witness:
  "find_key toLowerCase_latin mockLogs_init (''Pac'' @ [CHR 0xE2, CHR 0x84, CHR 0xAA] @ ''ageIdPrice'')
     = Some ''PackageIdPrice'' \<and>
   ''PackageIdPrice'' \<noteq> [] \<and> map_of mockLogs_init ''PackageIdPrice'' = Some [] \<and>
   get_logs toLowerCase_latin mockLogs_init (''Pac'' @ [CHR 0xE2, CHR 0x84, CHR 0xAA] @ ''ageIdPrice'')
     ''t'' decimal =
     Inr (Response 200
       [(''status'', JNum 200),
        (''message'', JStr ''[t] No logs recorded yet for PackageIdPrice.'')]) \<and>
   find_key toLowerCase_latin [(''Sale'', []), (''CurrencyInfo'', [''a'', ''b''])] ''CURRENCYINFO''
     = Some ''CurrencyInfo'' \<and>
   get_logs toLowerCase_latin [(''Sale'', []), (''CurrencyInfo'', [''a'', ''b''])] ''CURRENCYINFO''
     ''t'' decimal =
     Inr (Response 200 [(''status'', JNum 200), (''message'', JStr ''a\<newline>b'')])"
proof -
  have k: "find_key toLowerCase_latin mockLogs_init
      (''Pac'' @ [CHR 0xE2, CHR 0x84, CHR 0xAA] @ ''ageIdPrice'') = Some ''PackageIdPrice''"
    by code_simp
  have n: "''PackageIdPrice'' \<noteq> []" by simp
  have m: "map_of mockLogs_init ''PackageIdPrice'' = Some []" by (simp add: mockLogs_init_def)
  have k': "find_key toLowerCase_latin [(''Sale'', []), (''CurrencyInfo'', [''a'', ''b''])]
      ''CURRENCYINFO'' = Some ''CurrencyInfo''"
    by code_simp
  have n': "''CurrencyInfo'' \<noteq> []" by simp
  have m': "map_of [(''Sale'', []), (''CurrencyInfo'', [''a'', ''b''])] ''CurrencyInfo'' = Some [''a'', ''b'']"
    by simp
  show ?thesis
    using k n m k' get_logs_known [OF k n m, of "''t''" decimal]
      get_logs_known [OF k' n' m', of "''t''" decimal]
    by simp
qed

text \<open>
  Claim C6. The block is appended exactly when the matched key is \<open>Sale\<close> and its array
  has at least one line: then the message is the stored lines, the marker
  \<open>----- START LONG LOG -----\<close>, 500 lines and the marker \<open>----- END LONG LOG -----\<close>; the
  \<open>i\<close>-th of the 500 lines, counted from 0, carries the number \<open>i + 1\<close> and the token of
  iteration \<open>i\<close>. For every other matched key, for \<open>Sale\<close> with an empty array and for a
  name that matches no key, the message has no block. The matched key \<open>logKey\<close> is not
  empty, as the five keys are.
\<close>

theorem long_log_appended:
  "(find_key toLowerCase mockLogs parserName = None \<longrightarrow>
      get_logs toLowerCase mockLogs parserName timestamp token =
        Inr (Response 404
          [(''status'', JNum 404),
           (''message'', JStr (''No logs found for unknown parser: '' @ parserName))])) \<and>
   (find_key toLowerCase mockLogs parserName = Some logKey \<and> logKey \<noteq> [] \<and>
    map_of mockLogs logKey = Some logs \<longrightarrow>
      get_logs toLowerCase mockLogs parserName timestamp token =
        Inr (Response 200
          [(''status'', JNum 200),
           (''message'', JStr
              ((if logs = []
                then ''['' @ timestamp @ ''] No logs recorded yet for '' @ logKey @ ''.''
                else join_newline logs)
               @ (if logKey = ''Sale'' \<and> 0 < length logs then
                    ''\<newline>----- START LONG LOG -----\<newline>''
                    @ concat (map (long_log_line token) [0..<500])
                    @ ''----- END LONG LOG -----''
                  else [])))])) \<and>
   length (map (long_log_line token) [0..<500]) = 500 \<and>
   (\<forall>i < 500. map (long_log_line token) [0..<500] ! i =
      ''This is a very long log line number '' @ decimal (i + 1)
      @ '' to test the file sending feature. Count: '' @ token i @ ''.\<newline>'')"
proof (intro conjI impI allI)
  assume "find_key toLowerCase mockLogs parserName = None"
  then show "get_logs toLowerCase mockLogs parserName timestamp token =
        Inr (Response 404
          [(''status'', JNum 404),
           (''message'', JStr (''No logs found for unknown parser: '' @ parserName))])"
    by (simp add: get_logs_def)
next
  assume "find_key toLowerCase mockLogs parserName = Some logKey \<and> logKey \<noteq> [] \<and>
    map_of mockLogs logKey = Some logs"
  then show "get_logs toLowerCase mockLogs parserName timestamp token =
        Inr (Response 200
          [(''status'', JNum 200),
           (''message'', JStr
              ((if logs = []
                then ''['' @ timestamp @ ''] No logs recorded yet for '' @ logKey @ ''.''
                else join_newline logs)
               @ (if logKey = ''Sale'' \<and> 0 < length logs then
                    ''\<newline>----- START LONG LOG -----\<newline>''
                    @ concat (map (long_log_line token) [0..<500])
                    @ ''----- END LONG LOG -----''
                  else [])))])"
    using get_logs_found [of toLowerCase mockLogs parserName logKey logs timestamp token] by simp
next
  show "length (map (long_log_line token) [0..<500]) = 500" by simp
next
  fix i :: nat
  assume "i < 500"
  then show "map (long_log_line token) [0..<500] ! i =
      ''This is a very long log line number '' @ decimal (i + 1)
      @ '' to test the file sending feature. Count: '' @ token i @ ''.\<newline>''"
    by (simp add: long_log_line_def del: upt_Suc)
qed

theorem long_log_appended_witness:
  "find_key toLowerCase_latin [(''Sale'', [''x'']), (''CurrencyInfo'', [])] ''SALE'' = Some ''Sale'' \<and>
   ''Sale'' \<noteq> [] \<and> map_of [(''Sale'', [''x'']), (''CurrencyInfo'', [])] ''Sale'' = Some [''x''] \<and>
   get_logs toLowerCase_latin [(''Sale'', [''x'']), (''CurrencyInfo'', [])] ''SALE'' ''t'' decimal =
     Inr (Response 200
       [(''status'', JNum 200),
        (''message'', JStr
           (''x\<newline>----- START LONG LOG -----\<newline>''
            @ concat (map (long_log_line decimal) [0..<500])
            @ ''----- END LONG LOG -----''))]) \<and>
   find_key toLowerCase_latin [(''Sale'', [''x'']), (''CurrencyInfo'', [])] ''Nope'' = None \<and>
   get_logs toLowerCase_latin [(''Sale'', [''x'']), (''CurrencyInfo'', [])] ''Nope'' ''t'' decimal =
     Inr (Response 404
       [(''status'', JNum 404), (''message'', JStr ''No logs found for unknown parser: Nope'')]) \<and>
   (499::nat) < 500 \<and>
   map (long_log_line decimal) [0..<500] ! 499 =
     ''This is a very long log line number 500 to test the file sending feature. Count: 499.\<newline>''"
proof -
  have k: "find_key toLowerCase_latin [(''Sale'', [''x'']), (''CurrencyInfo'', [])] ''SALE''
      = Some ''Sale''"
    by code_simp
  have k': "find_key toLowerCase_latin [(''Sale'', [''x'']), (''CurrencyInfo'', [])] ''Nope'' = None"
    by code_simp
  have m: "map_of [(''Sale'', [''x'']), (''CurrencyInfo'', [])] ''Sale'' = Some [''x'']"
    by simp
  have d: "decimal (499 + 1) = ''500''" "decimal 499 = ''499''" by code_simp+
  have i: "(499::nat) < 500" by simp
  show ?thesis
    using k k' m d i
      long_log_appended [where toLowerCase = toLowerCase_latin
        and mockLogs = "[(''Sale'', [''x'']), (''CurrencyInfo'', [])]" and parserName = "''SALE''"
        and logKey = "''Sale''" and logs = "[''x'']" and timestamp = "''t''" and token = decimal]
      long_log_appended [where toLowerCase = toLowerCase_latin
        and mockLogs = "[(''Sale'', [''x'']), (''CurrencyInfo'', [])]" and parserName = "''Nope''"
        and logKey = "''Sale''" and logs = "[''x'']" and timestamp = "''t''" and token = decimal]
    by (simp del: upt_Suc nth_map nth_upt)
qed

end
